theory Spec2Isabelle
  imports Complex_Main
begin

section \<open>JSON values as Python holds them\<close>

text \<open>
  Both scripts work on what \<^verbatim>\<open>json.load\<close> returns: \<^verbatim>\<open>None\<close>, a bool, an int, a str, a
  list, or a dict with str keys. A dict keeps its insertion order, so it is an association
  list; Python never holds a key twice, which \<open>wf_json\<close> states. Numbers are Python's
  unbounded ints; floats are not part of this development. A character is a \<^typ>\<open>char\<close>;
  with \<^verbatim>\<open>ensure_ascii=False\<close> every character that is neither a control character, a
  double quote nor a backslash is written as it is.
\<close>

datatype json =
    JNull
  | JBool bool
  | JInt int
  | JStr string
  | JArr "json list"
  | JObj "(string \<times> json) list"


section \<open>Python's exceptions and built-in operations\<close>

text \<open>
  Every exception the scripts can meet is a subclass of \<^verbatim>\<open>Exception\<close>. The operating
  system's errors carry the file name; the others carry their message.
\<close>

datatype py_exception =
    FileNotFoundError string
  | IsADirectoryError string
  | PermissionError string
  | UnicodeDecodeError string
  | JSONDecodeError string
  | TypeError string
  | KeyError string
  | ValueError string

function digits :: "nat \<Rightarrow> string" where
  "digits n = (if n < 10 then [''0123456789'' ! n] else digits (n div 10) @ [''0123456789'' ! (n mod 10)])"
  by pat_completeness auto
termination
  by (relation "measure id") auto

declare digits.simps [simp del]

text \<open>\<^verbatim>\<open>str(i)\<close> of an int.\<close>

definition str_int :: "int \<Rightarrow> string" where
  "str_int i = (if i < 0 then CHR ''-'' # digits (nat (- i)) else digits (nat i))"

text \<open>\<^verbatim>\<open>repr\<close> of a file name without quotes or backslashes, as the two scripts use.\<close>

definition quoted :: "string \<Rightarrow> string" where
  "quoted p = CHR 0x27 # p @ [CHR 0x27]"

text \<open>\<^verbatim>\<open>str(e)\<close>, which the f-string \<^verbatim>\<open>f"Error: {e}"\<close> formats.\<close>

fun str_exception :: "py_exception \<Rightarrow> string" where
  "str_exception (FileNotFoundError p) = ''[Errno 2] No such file or directory: '' @ quoted p"
| "str_exception (IsADirectoryError p) = ''[Errno 21] Is a directory: '' @ quoted p"
| "str_exception (PermissionError p) = ''[Errno 13] Permission denied: '' @ quoted p"
| "str_exception (UnicodeDecodeError m) = m"
| "str_exception (JSONDecodeError m) = m"
| "str_exception (TypeError m) = m"
| "str_exception (KeyError m) = m"
| "str_exception (ValueError m) = m"

text \<open>\<^verbatim>\<open>type(v).__name__\<close> for a decoded value.\<close>

fun type_name :: "json \<Rightarrow> string" where
  "type_name JNull = ''NoneType''"
| "type_name (JBool b) = ''bool''"
| "type_name (JInt i) = ''int''"
| "type_name (JStr s) = ''str''"
| "type_name (JArr xs) = ''list''"
| "type_name (JObj ps) = ''dict''"

text \<open>\<^verbatim>\<open>len(v)\<close>: defined on list, str and dict, a \<^verbatim>\<open>TypeError\<close> on the others.\<close>

fun py_len :: "json \<Rightarrow> py_exception + nat" where
  "py_len (JArr xs) = Inr (length xs)"
| "py_len (JStr s) = Inr (length s)"
| "py_len (JObj ps) = Inr (length ps)"
| "py_len v = Inl (TypeError (''object of type '' @ quoted (type_name v) @ '' has no len()''))"

text \<open>
  A slice bound against a sequence of length \<open>n\<close>: a negative bound counts from the end,
  and every bound is clamped into \<open>0..n\<close>, so a slice is never out of range.
\<close>

definition adjust_index :: "int \<Rightarrow> nat \<Rightarrow> nat" where
  "adjust_index i n = (if i < 0 then nat (max (i + int n) 0) else min (nat i) n)"

definition slice :: "'a list \<Rightarrow> int \<Rightarrow> int \<Rightarrow> 'a list" where
  "slice xs i j =
     (let lo = adjust_index i (length xs); hi = adjust_index j (length xs)
      in take (hi - lo) (drop lo xs))"

text \<open>
  \<^verbatim>\<open>v[i:j]\<close>. A list and a str are sliced. A dict looks the slice object up as a key and
  finds none (Python 3.12 and later; earlier versions raise \<^verbatim>\<open>TypeError\<close>, unhashable
  type, instead). The other values are not subscriptable.
\<close>

fun py_getslice :: "json \<Rightarrow> int \<Rightarrow> int \<Rightarrow> py_exception + json" where
  "py_getslice (JArr xs) i j = Inr (JArr (slice xs i j))"
| "py_getslice (JStr s) i j = Inr (JStr (slice s i j))"
| "py_getslice (JObj ps) i j =
     Inl (KeyError (''slice('' @ str_int i @ '', '' @ str_int j @ '', None)''))"
| "py_getslice v i j = Inl (TypeError (quoted (type_name v) @ '' object is not subscriptable''))"

section \<open>The encoder: \<^verbatim>\<open>json.dumps(v, indent=2, ensure_ascii=False)\<close>\<close>

definition hex_digit :: "nat \<Rightarrow> char" where
  "hex_digit k = ''0123456789abcdef'' ! k"

text \<open>
  The escape table of the encoder without \<^verbatim>\<open>ensure_ascii\<close>: the quote, the backslash
  and the control characters below \<open>0x20\<close> are escaped, everything else is copied.
\<close>

definition escape_char :: "char \<Rightarrow> string" where
  "escape_char c =
     (if c = CHR 0x22 then [CHR 0x5C, CHR 0x22]
      else if c = CHR 0x5C then [CHR 0x5C, CHR 0x5C]
      else if c = CHR 0x0A then [CHR 0x5C, CHR ''n'']
      else if c = CHR 0x0D then [CHR 0x5C, CHR ''r'']
      else if c = CHR 0x09 then [CHR 0x5C, CHR ''t'']
      else if c = CHR 0x08 then [CHR 0x5C, CHR ''b'']
      else if c = CHR 0x0C then [CHR 0x5C, CHR ''f'']
      else if (of_char c :: nat) < 32 then
        [CHR 0x5C, CHR ''u'', CHR ''0'', CHR ''0'',
         hex_digit (of_char c div 16), hex_digit (of_char c mod 16)]
      else [c])"

definition encode_basestring :: "string \<Rightarrow> string" where
  "encode_basestring s = CHR 0x22 # concat (map escape_char s) @ [CHR 0x22]"

text \<open>A line break followed by the indentation of nesting level \<open>lvl\<close>, two spaces a level.\<close>

definition newline_indent :: "nat \<Rightarrow> string" where
  "newline_indent lvl = CHR 0x0A # replicate (2 * lvl) CHR '' ''"

text \<open>The texts of the items with the separator between each two of them.\<close>

fun sep_join :: "string \<Rightarrow> string list \<Rightarrow> string" where
  "sep_join sep [] = []"
| "sep_join sep [t] = t"
| "sep_join sep (t # u # ts) = t @ sep @ sep_join sep (u # ts)"

text \<open>A member of a dict: the key as a string, a colon and a space, the value's text.\<close>

definition member_text :: "string \<Rightarrow> string \<Rightarrow> string" where
  "member_text k t = encode_basestring k @ '': '' @ t"

text \<open>
  The encoder at nesting level \<open>lvl\<close>. An empty container is written closed on the spot;
  otherwise every item starts a line of its own one level deeper, items are separated by
  a comma, a key from its value by a colon and a space, and the closing bracket stands on
  a line of its own at the container's level.
\<close>

fun encode :: "nat \<Rightarrow> json \<Rightarrow> string" where
  "encode lvl JNull = ''null''"
| "encode lvl (JBool b) = (if b then ''true'' else ''false'')"
| "encode lvl (JInt i) = str_int i"
| "encode lvl (JStr s) = encode_basestring s"
| "encode lvl (JArr xs) =
     (if xs = [] then ''[]''
      else ''['' @ newline_indent (Suc lvl)
        @ sep_join ('','' @ newline_indent (Suc lvl)) (map (encode (Suc lvl)) xs)
        @ newline_indent lvl @ '']'')"
| "encode lvl (JObj ps) =
     (if ps = [] then ''{}''
      else ''{'' @ newline_indent (Suc lvl)
        @ sep_join ('','' @ newline_indent (Suc lvl))
            (map (\<lambda>p. member_text (fst p) (encode (Suc lvl) (snd p))) ps)
        @ newline_indent lvl @ ''}'')"

definition json_dumps :: "json \<Rightarrow> string" where
  "json_dumps v = encode 0 v"

section \<open>The decoder: \<^verbatim>\<open>json.loads\<close>\<close>



definition is_digit :: "char \<Rightarrow> bool" where
  "is_digit c \<longleftrightarrow> c \<in> set ''0123456789''"

definition digit_val :: "char \<Rightarrow> nat" where
  "digit_val c = of_char c - 48"

definition nat_of_digits :: "string \<Rightarrow> nat" where
  "nat_of_digits ds = foldl (\<lambda>a c. 10 * a + digit_val c) 0 ds"














section \<open>The world the scripts run in\<close>

text \<open>
  A path other than the source holds nothing, a directory or a regular file with its
  text. \<open>source\<close> is what \<^verbatim>\<open>open('data/prompts.json', 'r', encoding='utf-8')\<close>
  followed by \<^verbatim>\<open>json.load(f)\<close> comes to in this world: the exception raised (no such
  file, no permission, bytes that are not UTF-8, a text that is not JSON) or the decoded
  value. \<open>stdout\<close> is the text written to standard output so far, and \<open>trace\<close> lists
  the effects in the order they happened. Standard output takes every text: its encoding
  has every character that is printed. A file opened for writing takes the whole text.
\<close>

datatype node = Directory | Regular string

datatype effect = Print string | Write string string

record world =
  source :: "py_exception + json"
  files :: "string \<Rightarrow> node option"
  stdout :: string
  trace :: "effect list"

text \<open>A run ends normally or with an uncaught exception; either way it leaves a world.\<close>

datatype outcome = Completed world | Aborted py_exception world

fun world_of :: "outcome \<Rightarrow> world" where
  "world_of (Completed w) = w"
| "world_of (Aborted e w) = w"

text \<open>\<^verbatim>\<open>print(s)\<close>: the text and a line break.\<close>

definition py_print :: "string \<Rightarrow> world \<Rightarrow> world" where
  "py_print s w = w\<lparr>stdout := stdout w @ s @ [CHR 0x0A], trace := trace w @ [Print s]\<rparr>"

text \<open>
  \<^verbatim>\<open>open(path, 'w', encoding='utf-8')\<close>: a directory cannot be opened for writing; any
  other path is created or truncated.
\<close>

definition open_w :: "string \<Rightarrow> world \<Rightarrow> py_exception + world" where
  "open_w path w =
     (case files w path of
        Some Directory \<Rightarrow> Inl (IsADirectoryError path)
      | _ \<Rightarrow> Inr (w\<lparr>files := (files w)(path \<mapsto> Regular [])\<rparr>))"

text \<open>
  \<^verbatim>\<open>json.dump(v, f, ensure_ascii=False, indent=2)\<close> on the file just opened at
  \<open>path\<close>, and the end of the \<^verbatim>\<open>with\<close> block.
\<close>

definition json_dump :: "json \<Rightarrow> string \<Rightarrow> world \<Rightarrow> world" where
  "json_dump v path w =
     w\<lparr>files := (files w)(path \<mapsto> Regular (json_dumps v)),
       trace := trace w @ [Write path (json_dumps v)]\<rparr>"

section \<open>\<^verbatim>\<open>scripts/extract_batch.py\<close>\<close>

text \<open>
  The body of the \<^verbatim>\<open>try\<close> block: load the data, slice it, print the slice. An
  exception leaves the block with the world as it was when it was raised.
\<close>

definition extract_try :: "int \<Rightarrow> int \<Rightarrow> world \<Rightarrow> outcome" where
  "extract_try start count w =
     (case source w of
        Inl e \<Rightarrow> Aborted e w
      | Inr data \<Rightarrow>
          (case py_getslice data start (start + count) of
             Inl e \<Rightarrow> Aborted e w
           | Inr batch \<Rightarrow> Completed (py_print (json_dumps batch) w)))"

text \<open>\<^verbatim>\<open>except Exception as e: print(f"Error: {e}")\<close> around it.\<close>

definition extract_batch :: "int \<Rightarrow> int \<Rightarrow> world \<Rightarrow> outcome" where
  "extract_batch start count w =
     (case extract_try start count w of
        Completed w' \<Rightarrow> Completed w'
      | Aborted e w' \<Rightarrow> Completed (py_print (''Error: '' @ str_exception e) w'))"

text \<open>The script run as a program.\<close>

definition extract_main :: "world \<Rightarrow> outcome" where
  "extract_main w = extract_batch 30 50 w"

section \<open>\<^verbatim>\<open>scripts/split_prompts.py\<close>\<close>

text \<open>\<^verbatim>\<open>range(i, stop, step)\<close> for a positive step, as a list.\<close>

function py_range :: "nat \<Rightarrow> nat \<Rightarrow> nat \<Rightarrow> nat list" where
  "py_range i stop step =
     (if 0 < step \<and> i < stop then i # py_range (i + step) stop step else [])"
  by pat_completeness auto
termination
  by (relation "measure (\<lambda>(i, stop, step). stop - i)") auto

declare py_range.simps [simp del]

text \<open>
  The list comprehension \<^verbatim>\<open>[data[i:i + chunk_size] for i in ...]\<close> over the indices it is
  given; the first slice that raises ends it.
\<close>

fun slices :: "json \<Rightarrow> nat \<Rightarrow> nat list \<Rightarrow> py_exception + json list" where
  "slices data chunk_size [] = Inr []"
| "slices data chunk_size (i # is) =
     (case py_getslice data (int i) (int i + int chunk_size) of
        Inl e \<Rightarrow> Inl e
      | Inr chunk \<Rightarrow>
          (case slices data chunk_size is of
             Inl e \<Rightarrow> Inl e
           | Inr rest \<Rightarrow> Inr (chunk # rest)))"

text \<open>
  \<^verbatim>\<open>chunks = [data[i:i + chunk_size] for i in range(0, len(data), chunk_size)]\<close>. The
  arguments of \<^verbatim>\<open>range\<close> are evaluated first, and \<^verbatim>\<open>range\<close> refuses a step of zero.
\<close>

definition chunks :: "json \<Rightarrow> nat \<Rightarrow> py_exception + json list" where
  "chunks data chunk_size =
     (case py_len data of
        Inl e \<Rightarrow> Inl e
      | Inr n \<Rightarrow>
          if chunk_size = 0 then Inl (ValueError ''range() arg 3 must not be zero'')
          else slices data chunk_size (py_range 0 n chunk_size))"

text \<open>The items of a chunk that is a list.\<close>

fun elements :: "json \<Rightarrow> json list" where
  "elements (JArr xs) = xs"
| "elements v = []"

definition chunk_filename :: "nat \<Rightarrow> string" where
  "chunk_filename i = ''data/temp_chunk_'' @ str_int (int i) @ ''.json''"

text \<open>
  The loop \<^verbatim>\<open>for i, chunk in enumerate(chunks)\<close> from index \<open>i\<close> on: open the file,
  dump the chunk, report it.
\<close>

fun write_chunks :: "nat \<Rightarrow> json list \<Rightarrow> world \<Rightarrow> outcome" where
  "write_chunks i [] w = Completed w"
| "write_chunks i (chunk # rest) w =
     (let filename = chunk_filename i in
      case open_w filename w of
        Inl e \<Rightarrow> Aborted e w
      | Inr w1 \<Rightarrow>
          (let w2 = json_dump chunk filename w1 in
           case py_len chunk of
             Inl e \<Rightarrow> Aborted e w2
           | Inr k \<Rightarrow>
               write_chunks (Suc i) rest
                 (py_print (''Created '' @ filename @ '' with '' @ str_int (int k) @ '' items'') w2)))"

text \<open>
  The script, whose statements stand at module level, with the chunk size as a
  parameter. Nothing catches an exception.
\<close>

definition split_with :: "nat \<Rightarrow> world \<Rightarrow> outcome" where
  "split_with chunk_size w =
     (case source w of
        Inl e \<Rightarrow> Aborted e w
      | Inr data \<Rightarrow>
          (case py_len data of
             Inl e \<Rightarrow> Aborted e w
           | Inr n \<Rightarrow>
               (let w1 = py_print (''Total items: '' @ str_int (int n)) w in
                case chunks data chunk_size of
                  Inl e \<Rightarrow> Aborted e w1
                | Inr cs \<Rightarrow> write_chunks 0 cs w1)))"

text \<open>\<^verbatim>\<open>chunk_size = 50\<close>, as the script sets it.\<close>

definition split_prompts :: "world \<Rightarrow> outcome" where
  "split_prompts w = split_with 50 w"

section \<open>Notions the properties are stated with\<close>

text \<open>A text that is one line: it ends with its only line break.\<close>

definition one_line :: "string \<Rightarrow> bool" where
  "one_line t \<longleftrightarrow> t \<noteq> [] \<and> last t = CHR 0x0A \<and> CHR 0x0A \<notin> set (butlast t)"


text \<open>A world with the given source, an empty directory and nothing printed yet.\<close>

definition example_world :: "py_exception + json \<Rightarrow> world" where
  "example_world src = \<lparr>source = src, files = Map.empty, stdout = [], trace = []\<rparr>"

text \<open>The two kinds of line the splitter prints.\<close>

definition total_line :: "nat \<Rightarrow> string" where
  "total_line n = ''Total items: '' @ str_int (int n)"

definition created_line :: "nat \<Rightarrow> json \<Rightarrow> string" where
  "created_line i chunk =
     ''Created '' @ chunk_filename i @ '' with '' @ str_int (int (length (elements chunk))) @ '' items''"

text \<open>
  A world whose source holds 120 items and in which the path of the second chunk is a
  directory.
\<close>

definition blocked_world :: world where
  "blocked_world =
     \<lparr>source = Inr (JArr (replicate 120 JNull)),
      files = [''data/temp_chunk_1.json'' \<mapsto> Directory], stdout = [], trace = []\<rparr>"

lemma example_world_simps:
  "source (example_world src) = src"
  "files (example_world src) = Map.empty"
  "stdout (example_world src) = []"
  "trace (example_world src) = []"
  by (simp_all add: example_world_def)

section \<open>Slices and ranges\<close>

lemma slice_nat: "slice xs (int i) (int i + int c) = take c (drop i xs)"
  by (auto simp: slice_def adjust_index_def Let_def min_def nat_add_distrib)


lemma py_range_step:
  "0 < step \<Longrightarrow> i < stop \<Longrightarrow> py_range i stop step = i # py_range (i + step) stop step"
  by (subst py_range.simps) simp

lemma py_range_done: "\<not> (0 < step \<and> i < stop) \<Longrightarrow> py_range i stop step = []"
  by (subst py_range.simps) simp

lemma py_range_nth:
  "k < length (py_range i n c) \<Longrightarrow> py_range i n c ! k = i + k * c"
proof (induction i n c arbitrary: k rule: py_range.induct)
  case (1 i stop step)
  show ?case
  proof (cases "0 < step \<and> i < stop")
    case True
    then have eq: "py_range i stop step = i # py_range (i + step) stop step"
      by (simp add: py_range_step)
    show ?thesis
    proof (cases k)
      case 0
      then show ?thesis by (simp add: eq)
    next
      case (Suc j)
      with 1 True eq show ?thesis by (simp add: algebra_simps)
    qed
  next
    case False
    with 1 show ?thesis by (simp add: py_range_done)
  qed
qed

lemma py_range_bound: "x \<in> set (py_range i n c) \<Longrightarrow> x < n"
proof (induction i n c rule: py_range.induct)
  case (1 i stop step)
  then show ?case
    by (subst (asm) (2) py_range.simps) (auto split: if_splits)
qed

lemma py_range_length:
  "0 < c \<Longrightarrow> length (py_range i n c) = (n - i + c - 1) div c"
proof (induction i n c rule: py_range.induct)
  case (1 i stop step)
  show ?case
  proof (cases "i < stop")
    case True
    then have eq: "py_range i stop step = i # py_range (i + step) stop step"
      using 1 by (simp add: py_range_step)
    show ?thesis
    proof (cases "stop - i \<le> step")
      case True
      with \<open>i < stop\<close> 1 have "(stop - i + step - 1) div step = 1"
        by (intro Euclidean_Rings.div_nat_eqI) auto
      moreover have "py_range (i + step) stop step = []"
        by (rule py_range_done) (use True in auto)
      ultimately show ?thesis by (simp add: eq)
    next
      case False
      define m where "m = stop - (i + step) + step - 1"
      from False have "stop - i + step - 1 = m + step" by (simp add: m_def)
      then have "(stop - i + step - 1) div step = (m + step) div step" by (rule arg_cong)
      also have "\<dots> = Suc (m div step)" using 1(2) by simp
      finally have "(stop - i + step - 1) div step = Suc ((stop - (i + step) + step - 1) div step)"
        by (simp only: m_def)
      with 1 True show ?thesis by (simp add: eq)
    qed
  next
    case False
    then have "py_range i stop step = []" by (simp add: py_range_done)
    moreover from False 1 have "(stop - i + step - 1) div step = 0" by simp
    ultimately show ?thesis by simp
  qed
qed

lemma ceil_div: "0 < c \<Longrightarrow> int ((n + c - 1) div c) = \<lceil>real n / real c\<rceil>"
proof -
  assume c: "0 < c"
  define q where "q = (n + c - 1) div c"
  have lo: "q * c \<le> n + c - 1" unfolding q_def by simp
  have hi: "n + c - 1 < (q + 1) * c"
    unfolding q_def using c by (metis Suc_eq_plus1 dividend_less_div_times mult.commute mult_Suc)
  from hi c have 1: "n \<le> q * c" by simp
  from lo c have 2: "n = 0 \<or> (q - 1) * c < n"
    by (cases q) (auto simp: algebra_simps)
  have a: "real n / real c \<le> of_int (int q)"
    using 1 c by (simp add: field_simps) (metis of_nat_le_iff of_nat_mult)
  have b: "of_int (int q) - 1 < real n / real c"
  proof (cases "n = 0")
    case True
    then have "q = 0" using c by (simp add: q_def)
    with True show ?thesis by simp
  next
    case False
    with 2 have "(q - 1) * c < n" by simp
    then have "real (q - 1) * real c < real n"
      by (metis of_nat_less_iff of_nat_mult)
    moreover have "real q - 1 \<le> real (q - 1)" by simp
    then have "(real q - 1) * real c \<le> real (q - 1) * real c"
      by (rule mult_right_mono) simp
    ultimately have "(real q - 1) * real c < real n" by linarith
    then show ?thesis using c by (simp add: field_simps)
  qed
  have "\<lceil>real n / real c\<rceil> = int q" by (rule ceiling_unique[OF b a])
  then show ?thesis by (simp add: q_def)
qed

section \<open>The chunks of a list\<close>

lemma slices_JArr:
  "slices (JArr xs) c is = Inr (map (\<lambda>i. JArr (take c (drop i xs))) is)"
  by (induction "is") (simp_all add: slice_nat)

lemma chunks_JArr:
  "0 < c \<Longrightarrow>
   chunks (JArr xs) c = Inr (map (\<lambda>i. JArr (take c (drop i xs))) (py_range 0 (length xs) c))"
  by (simp add: chunks_def slices_JArr)

lemma concat_py_range:
  "0 < c \<Longrightarrow> concat (map (\<lambda>i. take c (drop i xs)) (py_range i (length xs) c)) = drop i xs"
proof (induction i "length xs" c rule: py_range.induct)
  case (1 i step)
  show ?case
  proof (cases "i < length xs")
    case True
    have "take step (drop i xs) @ drop (i + step) xs = drop i xs"
      by (metis add.commute append_take_drop_id drop_drop)
    with True 1 show ?thesis
      by (simp add: py_range_step)
  next
    case False
    then show ?thesis by (simp add: py_range_done)
  qed
qed

text \<open>
  C2. For a list \<open>ds\<close> as the data and a positive chunk size, the comprehension returns
  its chunks, and the chunks' items, appended in the order of the chunks, are \<open>ds\<close>:
  nothing is lost, repeated or moved.
\<close>

theorem chunks_concat:
  assumes "0 < chunk_size"
  shows "\<exists>cs. chunks (JArr ds) chunk_size = Inr cs \<and> concat (map elements cs) = ds"
proof -
  have "concat (map elements (map (\<lambda>i. JArr (take chunk_size (drop i ds)))
          (py_range 0 (length ds) chunk_size))) = drop 0 ds"
    using concat_py_range [OF assms, of ds 0] by (simp add: o_def)
  with chunks_JArr [OF assms, of ds] show ?thesis by simp
qed

theorem chunks_concat_witness:
  "(0::nat) < 2 \<and>
   (\<exists>cs. chunks (JArr [JInt 1, JInt 2, JInt 3, JInt 4, JInt 5]) 2 = Inr cs \<and>
      concat (map elements cs) = [JInt 1, JInt 2, JInt 3, JInt 4, JInt 5])"
proof -
  have h: "(0::nat) < 2" by simp
  from chunks_concat [OF h] show ?thesis using h by blast
qed

lemma chunk_nth:
  assumes c: "0 < c" and k: "k < length (py_range 0 (length xs) c)"
  shows "map (\<lambda>i. JArr (take c (drop i xs))) (py_range 0 (length xs) c) ! k
           = JArr (take c (drop (k * c) xs))"
    and "k * c < length xs"
proof -
  from py_range_nth [OF k] have n: "py_range 0 (length xs) c ! k = k * c" by simp
  with k show "map (\<lambda>i. JArr (take c (drop i xs))) (py_range 0 (length xs) c) ! k
           = JArr (take c (drop (k * c) xs))" by simp
  from k have "py_range 0 (length xs) c ! k \<in> set (py_range 0 (length xs) c)"
    by (rule nth_mem)
  then show "k * c < length xs" using n py_range_bound by metis
qed

text \<open>
  C3. For a list \<open>ds\<close> as the data and a positive chunk size, the number of chunks is
  the length of \<open>ds\<close> divided by the chunk size, rounded up; every chunk but the last
  has exactly \<open>chunk_size\<close> items, the last has between one and \<open>chunk_size\<close>, no chunk
  is empty, and an empty list has no chunks.
\<close>

theorem chunks_count_sizes:
  assumes "0 < chunk_size"
  shows "\<exists>cs. chunks (JArr ds) chunk_size = Inr cs
           \<and> int (length cs) = \<lceil>real (length ds) / real chunk_size\<rceil>
           \<and> (\<forall>k. Suc k < length cs \<longrightarrow> py_len (cs ! k) = Inr chunk_size)
           \<and> (\<forall>k. Suc k = length cs \<longrightarrow>
                 (\<exists>m. py_len (cs ! k) = Inr m \<and> 1 \<le> m \<and> m \<le> chunk_size))
           \<and> (\<forall>k < length cs. elements (cs ! k) \<noteq> [])
           \<and> (ds = [] \<longrightarrow> cs = [])"
proof -
  let ?r = "py_range 0 (length ds) chunk_size"
  let ?cs = "map (\<lambda>i. JArr (take chunk_size (drop i ds))) ?r"
  have eq: "chunks (JArr ds) chunk_size = Inr ?cs"
    by (rule chunks_JArr [OF assms])
  have len: "length ?cs = (length ds + chunk_size - 1) div chunk_size"
    using py_range_length [OF assms, of 0 "length ds"] by simp
  have count: "int (length ?cs) = \<lceil>real (length ds) / real chunk_size\<rceil>"
    using ceil_div [OF assms, of "length ds"] len by simp
  have full: "py_len (?cs ! k) = Inr chunk_size" if "Suc k < length ?cs" for k
  proof -
    from that have k: "k < length ?r" and k': "Suc k < length ?r" by simp_all
    from chunk_nth(2) [OF assms k'] have "chunk_size + k * chunk_size < length ds" by simp
    then show ?thesis using chunk_nth(1) [OF assms k] by simp
  qed
  have some: "\<exists>m. py_len (?cs ! k) = Inr m \<and> 1 \<le> m \<and> m \<le> chunk_size"
    if "k < length ?cs" for k
  proof -
    from that have k: "k < length ?r" by simp
    from chunk_nth(2) [OF assms k] have "1 \<le> length ds - k * chunk_size" by simp
    then show ?thesis using chunk_nth(1) [OF assms k] assms by simp
  qed
  have nonempty: "elements (?cs ! k) \<noteq> []" if "k < length ?cs" for k
  proof -
    from that have k: "k < length ?r" by simp
    from chunk_nth(2) [OF assms k] show ?thesis using chunk_nth(1) [OF assms k] assms by simp
  qed
  have empty: "ds = [] \<longrightarrow> ?cs = []"
    by (simp add: py_range_done)
  show ?thesis
  proof (rule exI [of _ ?cs], intro conjI allI impI)
    show "chunks (JArr ds) chunk_size = Inr ?cs" by (rule eq)
    show "int (length ?cs) = \<lceil>real (length ds) / real chunk_size\<rceil>" by (rule count)
    show "py_len (?cs ! k) = Inr chunk_size" if "Suc k < length ?cs" for k
      using that by (rule full)
    show "\<exists>m. py_len (?cs ! k) = Inr m \<and> 1 \<le> m \<and> m \<le> chunk_size"
      if "Suc k = length ?cs" for k
      by (rule some) (use that in linarith)
    show "elements (?cs ! k) \<noteq> []" if "k < length ?cs" for k
      using that by (rule nonempty)
    show "?cs = []" if "ds = []"
      using that empty by simp
  qed
qed

theorem chunks_count_sizes_witness:
  "(0::nat) < 2 \<and>
   chunks (JArr [JInt 1, JInt 2, JInt 3, JInt 4, JInt 5]) 2
     = Inr [JArr [JInt 1, JInt 2], JArr [JInt 3, JInt 4], JArr [JInt 5]] \<and>
   \<lceil>real (length [JInt 1, JInt 2, JInt 3, JInt 4, JInt 5]) / real (2::nat)\<rceil> = 3"
proof -
  have h: "(0::nat) < 2" by simp
  have c: "chunks (JArr [JInt 1, JInt 2, JInt 3, JInt 4, JInt 5]) 2
     = Inr [JArr [JInt 1, JInt 2], JArr [JInt 3, JInt 4], JArr [JInt 5]]"
    by code_simp
  from chunks_count_sizes [OF h, of "[JInt 1, JInt 2, JInt 3, JInt 4, JInt 5]"] c h
  show ?thesis by auto
qed

section \<open>The encoder and the decoder\<close>

subsection \<open>Strings\<close>





subsection \<open>Numbers\<close>

lemma digit_nth: "k < 10 \<Longrightarrow> is_digit (''0123456789'' ! k) \<and> digit_val (''0123456789'' ! k) = k
    \<and> (''0123456789'' ! k = CHR ''0'' \<longleftrightarrow> k = 0)"
proof -
  assume "k < 10"
  then have "k = 0 \<or> k = 1 \<or> k = 2 \<or> k = 3 \<or> k = 4 \<or> k = 5 \<or> k = 6 \<or> k = 7 \<or> k = 8 \<or> k = 9"
    by presburger
  then show ?thesis
    by (elim disjE) (simp_all add: is_digit_def digit_val_def)
qed


lemma digits_is_digit: "c \<in> set (digits n) \<Longrightarrow> is_digit c"
proof (induction n rule: digits.induct)
  case (1 n)
  show ?case
  proof (cases "n < 10")
    case True
    with 1(2) digit_nth [of n] show ?thesis by (subst (asm) digits.simps) simp
  next
    case False
    have "n mod 10 < 10" by simp
    from digit_nth [OF this] 1 False show ?thesis
      by (subst (asm) (2) digits.simps) auto
  qed
qed

lemma nat_of_digits_snoc: "nat_of_digits (ds @ [c]) = 10 * nat_of_digits ds + digit_val c"
  by (simp add: nat_of_digits_def)

lemma nat_of_digits_digits: "nat_of_digits (digits n) = n"
proof (induction n rule: digits.induct)
  case (1 n)
  show ?case
  proof (cases "n < 10")
    case True
    with digit_nth [of n] show ?thesis
      by (subst digits.simps) (simp add: nat_of_digits_def)
  next
    case False
    have "n mod 10 < 10" by simp
    from digit_nth [OF this] 1 False show ?thesis
      by (subst digits.simps) (simp add: nat_of_digits_snoc)
  qed
qed












subsection \<open>Values\<close>
















section \<open>The batch extractor\<close>

lemma digits_chars: "set (digits n) \<subseteq> set ''0123456789''"
  using digits_is_digit [of _ n] by (auto simp: is_digit_def)

lemma str_int_no_newline: "CHR 0x0A \<notin> set (str_int i)"
  using digits_chars [of "nat i"] digits_chars [of "nat (- i)"]
  by (auto simp: str_int_def)

lemma one_line_append: "CHR 0x0A \<notin> set t \<Longrightarrow> one_line (t @ [CHR 0x0A])"
  by (simp add: one_line_def)





text \<open>
  C8. Whatever the source, \<open>start\<close> and \<open>count\<close> are, a run of \<open>extract_batch\<close> leaves the
  files and the source as they were, and its only effect is one \<^verbatim>\<open>print\<close>.
\<close>

theorem extract_frame:
  "files (world_of (extract_batch start count w)) = files w \<and>
   source (world_of (extract_batch start count w)) = source w \<and>
   (\<exists>s. trace (world_of (extract_batch start count w)) = trace w @ [Print s] \<and>
        stdout (world_of (extract_batch start count w)) = stdout w @ s @ [CHR 0x0A])"
  by (auto simp: extract_batch_def extract_try_def py_print_def split: sum.splits)

text \<open>
  C9. When the source decodes to a dict, a number, a bool or \<^verbatim>\<open>None\<close>, the slice
  raises, and \<open>extract_batch\<close> ends normally having printed one line that starts with
  \<^verbatim>\<open>Error: \<close> and nothing else.
\<close>

theorem extract_non_list:
  assumes "source w = Inr v"
    and "v = JNull \<or> (\<exists>b. v = JBool b) \<or> (\<exists>i. v = JInt i) \<or> (\<exists>ps. v = JObj ps)"
  shows "\<exists>m. extract_batch start count w = Completed (py_print (''Error: '' @ m) w)
           \<and> stdout (world_of (extract_batch start count w))
               = stdout w @ ''Error: '' @ m @ [CHR 0x0A]
           \<and> one_line (''Error: '' @ m @ [CHR 0x0A])"
proof -
  from assms(2) obtain e where e: "py_getslice v start (start + count) = Inl e"
    and nl: "CHR 0x0A \<notin> set (str_exception e)"
    by (auto simp: quoted_def str_int_no_newline)
  from e assms(1) have "extract_batch start count w
      = Completed (py_print (''Error: '' @ str_exception e) w)"
    by (simp add: extract_batch_def extract_try_def)
  moreover from nl have "one_line ((''Error: '' @ str_exception e) @ [CHR 0x0A])"
    by (intro one_line_append) simp
  ultimately show ?thesis
    by (intro exI [of _ "str_exception e"]) (simp add: py_print_def)
qed

theorem extract_non_list_witness:
  "extract_batch 30 50 (example_world (Inr (JObj [(''a'', JInt 1)])))
     = Completed (py_print ''Error: slice(30, 80, None)''
         (example_world (Inr (JObj [(''a'', JInt 1)]))))"
proof -
  have s: "source (example_world (Inr (JObj [(''a'', JInt 1)]))) = Inr (JObj [(''a'', JInt 1)])"
    by (simp add: example_world_def)
  have "JObj [(''a'', JInt 1)] = JNull \<or> (\<exists>b. JObj [(''a'', JInt 1)] = JBool b)
      \<or> (\<exists>i. JObj [(''a'', JInt 1)] = JInt i) \<or> (\<exists>ps. JObj [(''a'', JInt 1)] = JObj ps)"
    by simp
  from extract_non_list [OF s this, of 30 50] obtain m where
    "extract_batch 30 50 (example_world (Inr (JObj [(''a'', JInt 1)])))
       = Completed (py_print (''Error: '' @ m) (example_world (Inr (JObj [(''a'', JInt 1)]))))"
    by blast
  moreover have "extract_batch 30 50 (example_world (Inr (JObj [(''a'', JInt 1)])))
     = Completed (py_print ''Error: slice(30, 80, None)''
         (example_world (Inr (JObj [(''a'', JInt 1)]))))"
    by (simp add: extract_batch_def extract_try_def s str_int_def digits.simps)
  ultimately show ?thesis by simp
qed

section \<open>The chunk splitter\<close>

text \<open>
  C10. When the source decodes to the empty list, the script ends normally; it prints the
  line \<^verbatim>\<open>Total items: 0\<close> and nothing else, and writes no file.
\<close>

theorem split_empty:
  assumes "source w = Inr (JArr [])"
  shows "split_prompts w = Completed (py_print ''Total items: 0'' w)
       \<and> stdout (world_of (split_prompts w)) = stdout w @ ''Total items: 0'' @ [CHR 0x0A]
       \<and> files (world_of (split_prompts w)) = files w
       \<and> trace (world_of (split_prompts w)) = trace w @ [Print ''Total items: 0'']"
proof -
  have "split_prompts w = Completed (py_print ''Total items: 0'' w)"
    using assms
    by (simp add: split_prompts_def split_with_def chunks_def py_range_done str_int_def digits.simps)
  then show ?thesis by (simp add: py_print_def)
qed

theorem split_empty_witness:
  "stdout (world_of (split_prompts (example_world (Inr (JArr []))))) = ''Total items: 0'' @ [CHR 0x0A]
   \<and> trace (world_of (split_prompts (example_world (Inr (JArr []))))) = [Print ''Total items: 0'']"
proof -
  have "source (example_world (Inr (JArr []))) = Inr (JArr [])"
    by (simp add: example_world_def)
  from split_empty [OF this]
  have "stdout (world_of (split_prompts (example_world (Inr (JArr [])))))
      = stdout (example_world (Inr (JArr []))) @ ''Total items: 0'' @ [CHR 0x0A]"
    and "trace (world_of (split_prompts (example_world (Inr (JArr [])))))
      = trace (example_world (Inr (JArr []))) @ [Print ''Total items: 0'']"
    by blast+
  then show ?thesis
    by (simp add: example_world_simps)
qed

subsection \<open>The loop over the chunks\<close>

lemma digits_inj: "digits m = digits n \<Longrightarrow> m = n"
  by (metis nat_of_digits_digits)

lemma chunk_filename_inj: "chunk_filename i = chunk_filename j \<longleftrightarrow> i = j"
  by (auto simp: chunk_filename_def str_int_def dest: digits_inj)

lemma chunk_filename_not_source: "chunk_filename i \<noteq> ''data/prompts.json''"
  by (simp add: chunk_filename_def)

lemma upt_shift: "[0..<Suc n] = 0 # map Suc [0..<n]"
  by (simp add: upt_conv_Cons map_Suc_upt del: upt_Suc)

lemma write_chunks_step:
  assumes "files w (chunk_filename i) \<noteq> Some Directory"
  shows "write_chunks i (JArr xs # cs) w =
     write_chunks (Suc i) cs
       (w\<lparr>files := (files w)(chunk_filename i \<mapsto> Regular (json_dumps (JArr xs))),
          stdout := stdout w @ created_line i (JArr xs) @ [CHR 0x0A],
          trace := trace w @ [Write (chunk_filename i) (json_dumps (JArr xs)),
                              Print (created_line i (JArr xs))]\<rparr>)"
proof -
  from assms have "open_w (chunk_filename i) w
      = Inr (w\<lparr>files := (files w)(chunk_filename i \<mapsto> Regular [])\<rparr>)"
    by (auto simp: open_w_def split: option.splits node.splits)
  then show ?thesis
    by (simp add: Let_def json_dump_def py_print_def created_line_def)
qed

lemma write_chunks_fail:
  assumes "files w (chunk_filename i) = Some Directory"
  shows "write_chunks i (c # cs) w = Aborted (IsADirectoryError (chunk_filename i)) w"
  using assms by (simp add: open_w_def Let_def)

lemma write_chunks_completed:
  assumes "\<forall>c \<in> set cs. \<exists>xs. c = JArr xs"
    and "\<forall>k < length cs. files w (chunk_filename (i + k)) \<noteq> Some Directory"
  shows "\<exists>w'. write_chunks i cs w = Completed w'
      \<and> source w' = source w
      \<and> trace w' = trace w @ concat (map (\<lambda>k. [Write (chunk_filename (i + k)) (json_dumps (cs ! k)),
                                               Print (created_line (i + k) (cs ! k))]) [0..<length cs])
      \<and> stdout w' = stdout w @ concat (map (\<lambda>k. created_line (i + k) (cs ! k) @ [CHR 0x0A]) [0..<length cs])
      \<and> (\<forall>k < length cs. files w' (chunk_filename (i + k)) = Some (Regular (json_dumps (cs ! k))))
      \<and> (\<forall>p. (\<forall>k < length cs. p \<noteq> chunk_filename (i + k)) \<longrightarrow> files w' p = files w p)"
  using assms
proof (induction cs arbitrary: i w)
  case Nil
  then show ?case by simp
next
  case (Cons c cs)
  from Cons.prems(1) obtain xs where c: "c = JArr xs" by auto
  let ?w = "w\<lparr>files := (files w)(chunk_filename i \<mapsto> Regular (json_dumps (JArr xs))),
          stdout := stdout w @ created_line i (JArr xs) @ [CHR 0x0A],
          trace := trace w @ [Write (chunk_filename i) (json_dumps (JArr xs)),
                              Print (created_line i (JArr xs))]\<rparr>"
  from Cons.prems(2) have "files w (chunk_filename i) \<noteq> Some Directory" by force
  then have step: "write_chunks i (c # cs) w = write_chunks (Suc i) cs ?w"
    unfolding c by (rule write_chunks_step)
  have "\<forall>k < length cs. files ?w (chunk_filename (Suc i + k)) \<noteq> Some Directory"
  proof (intro allI impI)
    fix k assume "k < length cs"
    then have "files w (chunk_filename (i + Suc k)) \<noteq> Some Directory"
      using Cons.prems(2) by auto
    then show "files ?w (chunk_filename (Suc i + k)) \<noteq> Some Directory"
      by (simp add: chunk_filename_inj)
  qed
  with Cons.IH [of ?w "Suc i"] Cons.prems(1) obtain w' where
    w': "write_chunks (Suc i) cs ?w = Completed w'"
    and so: "source w' = source ?w"
    and tr: "trace w' = trace ?w @ concat (map (\<lambda>k. [Write (chunk_filename (Suc i + k)) (json_dumps (cs ! k)),
                                               Print (created_line (Suc i + k) (cs ! k))]) [0..<length cs])"
    and st: "stdout w' = stdout ?w @ concat (map (\<lambda>k. created_line (Suc i + k) (cs ! k) @ [CHR 0x0A]) [0..<length cs])"
    and f1: "\<forall>k < length cs. files w' (chunk_filename (Suc i + k)) = Some (Regular (json_dumps (cs ! k)))"
    and f2: "\<forall>p. (\<forall>k < length cs. p \<noteq> chunk_filename (Suc i + k)) \<longrightarrow> files w' p = files ?w p"
    by auto
  have a: "trace w' = trace w @ concat (map (\<lambda>k. [Write (chunk_filename (i + k)) (json_dumps ((c # cs) ! k)),
                                               Print (created_line (i + k) ((c # cs) ! k))]) [0..<length (c # cs)])"
    using tr by (simp add: upt_shift c o_def del: upt_Suc)
  have b: "stdout w' = stdout w @ concat (map (\<lambda>k. created_line (i + k) ((c # cs) ! k) @ [CHR 0x0A]) [0..<length (c # cs)])"
    using st by (simp add: upt_shift c o_def del: upt_Suc)
  have d: "files w' (chunk_filename (i + k)) = Some (Regular (json_dumps ((c # cs) ! k)))"
    if "k < length (c # cs)" for k
  proof (cases k)
    case 0
    have "\<forall>k < length cs. chunk_filename i \<noteq> chunk_filename (Suc i + k)"
      by (simp add: chunk_filename_inj)
    with f2 have "files w' (chunk_filename i) = files ?w (chunk_filename i)" by blast
    with 0 c show ?thesis by simp
  next
    case (Suc j)
    with that f1 show ?thesis by simp
  qed
  have e: "files w' p = files w p" if "\<forall>k < length (c # cs). p \<noteq> chunk_filename (i + k)" for p
  proof -
    from that have "p \<noteq> chunk_filename i" by force
    moreover from that have "\<forall>k < length cs. p \<noteq> chunk_filename (Suc i + k)" by force
    with f2 have "files w' p = files ?w p" by blast
    ultimately show ?thesis by simp
  qed
  from step w' so a b d e show ?case by auto
qed

lemma write_chunks_aborted:
  assumes "\<forall>c \<in> set cs. \<exists>xs. c = JArr xs"
    and "j < length cs"
    and "\<forall>k < j. files w (chunk_filename (i + k)) \<noteq> Some Directory"
    and "files w (chunk_filename (i + j)) = Some Directory"
  shows "write_chunks i cs w
     = Aborted (IsADirectoryError (chunk_filename (i + j))) (world_of (write_chunks i (take j cs) w))"
  using assms
proof (induction cs arbitrary: i j w)
  case Nil
  then show ?case by simp
next
  case (Cons c cs)
  from Cons.prems(1) obtain xs where c: "c = JArr xs" by auto
  show ?case
  proof (cases j)
    case 0
    with Cons.prems(4) show ?thesis by (simp add: write_chunks_fail del: write_chunks.simps(2))
  next
    case (Suc j')
    let ?w = "w\<lparr>files := (files w)(chunk_filename i \<mapsto> Regular (json_dumps (JArr xs))),
          stdout := stdout w @ created_line i (JArr xs) @ [CHR 0x0A],
          trace := trace w @ [Write (chunk_filename i) (json_dumps (JArr xs)),
                              Print (created_line i (JArr xs))]\<rparr>"
    from Cons.prems(3) Suc have ok: "files w (chunk_filename i) \<noteq> Some Directory" by force
    have 1: "\<forall>k < j'. files ?w (chunk_filename (Suc i + k)) \<noteq> Some Directory"
    proof (intro allI impI)
      fix k assume "k < j'"
      with Cons.prems(3) Suc have "files w (chunk_filename (i + Suc k)) \<noteq> Some Directory"
        by auto
      then show "files ?w (chunk_filename (Suc i + k)) \<noteq> Some Directory"
        by (simp add: chunk_filename_inj)
    qed
    have 2: "files ?w (chunk_filename (Suc i + j')) = Some Directory"
      using Cons.prems(4) Suc by (simp add: chunk_filename_inj)
    from Cons.prems(2) Suc have 3: "j' < length cs" by simp
    from Cons.IH [OF _ 3 1 2] Cons.prems(1)
    have "write_chunks (Suc i) cs ?w
       = Aborted (IsADirectoryError (chunk_filename (Suc i + j')))
           (world_of (write_chunks (Suc i) (take j' cs) ?w))"
      by simp
    then show ?thesis
      unfolding Suc c take_Suc_Cons write_chunks_step [OF ok] by simp
  qed
qed

subsection \<open>A run of the script on a list\<close>

lemma chunks_are_lists:
  assumes "chunks (JArr ds) c = Inr cs"
  shows "\<forall>x \<in> set cs. \<exists>xs. x = JArr xs"
proof (cases "c = 0")
  case True
  with assms show ?thesis by (simp add: chunks_def)
next
  case False
  with assms chunks_JArr [of c ds] show ?thesis by auto
qed

lemma split_with_list:
  assumes "source w = Inr (JArr ds)" and "chunks (JArr ds) c = Inr cs"
  shows "split_with c w = write_chunks 0 cs (py_print (total_line (length ds)) w)"
  using assms by (simp add: split_with_def total_line_def)

lemma split_with_run:
  assumes src: "source w = Inr (JArr ds)" and cs: "chunks (JArr ds) c = Inr cs"
    and j: "j \<le> length cs"
    and ok: "\<forall>k < j. files w (chunk_filename k) \<noteq> Some Directory"
    and bad: "j < length cs \<longrightarrow> files w (chunk_filename j) = Some Directory"
  shows "\<exists>w'. (if j = length cs then split_with c w = Completed w'
               else split_with c w = Aborted (IsADirectoryError (chunk_filename j)) w')
      \<and> source w' = source w
      \<and> trace w' = trace w @ Print (total_line (length ds))
           # concat (map (\<lambda>k. [Write (chunk_filename k) (json_dumps (cs ! k)),
                                Print (created_line k (cs ! k))]) [0..<j])
      \<and> stdout w' = stdout w @ total_line (length ds) @ [CHR 0x0A]
           @ concat (map (\<lambda>k. created_line k (cs ! k) @ [CHR 0x0A]) [0..<j])
      \<and> (\<forall>k < j. files w' (chunk_filename k) = Some (Regular (json_dumps (cs ! k))))
      \<and> (\<forall>p. (\<forall>k < j. p \<noteq> chunk_filename k) \<longrightarrow> files w' p = files w p)"
proof -
  let ?w = "py_print (total_line (length ds)) w"
  have lists: "\<forall>x \<in> set (take j cs). \<exists>xs. x = JArr xs"
    using chunks_are_lists [OF cs] by (meson in_set_takeD)
  have len: "length (take j cs) = j" using j by simp
  have "\<forall>k < length (take j cs). files ?w (chunk_filename (0 + k)) \<noteq> Some Directory"
    using ok len by (simp add: py_print_def)
  from write_chunks_completed [OF lists this] obtain w' where
    run: "write_chunks 0 (take j cs) ?w = Completed w'"
    and so: "source w' = source ?w"
    and tr: "trace w' = trace ?w @ concat (map (\<lambda>k. [Write (chunk_filename (0 + k)) (json_dumps (take j cs ! k)),
                 Print (created_line (0 + k) (take j cs ! k))]) [0..<length (take j cs)])"
    and st: "stdout w' = stdout ?w @ concat (map (\<lambda>k. created_line (0 + k) (take j cs ! k) @ [CHR 0x0A])
                 [0..<length (take j cs)])"
    and f1: "\<forall>k < length (take j cs). files w' (chunk_filename (0 + k)) = Some (Regular (json_dumps (take j cs ! k)))"
    and f2: "\<forall>p. (\<forall>k < length (take j cs). p \<noteq> chunk_filename (0 + k)) \<longrightarrow> files w' p = files ?w p"
    by blast
  have out: "if j = length cs then split_with c w = Completed w'
               else split_with c w = Aborted (IsADirectoryError (chunk_filename j)) w'"
  proof (cases "j = length cs")
    case True
    with run show ?thesis by (simp add: split_with_list [OF src cs])
  next
    case False
    with j have jl: "j < length cs" by simp
    with bad have "files ?w (chunk_filename (0 + j)) = Some Directory"
      by (simp add: py_print_def)
    moreover have "\<forall>k < j. files ?w (chunk_filename (0 + k)) \<noteq> Some Directory"
      using ok by (simp add: py_print_def)
    ultimately have "write_chunks 0 cs ?w
        = Aborted (IsADirectoryError (chunk_filename (0 + j))) (world_of (write_chunks 0 (take j cs) ?w))"
      using write_chunks_aborted [OF chunks_are_lists [OF cs] jl] by blast
    with run False show ?thesis by (simp add: split_with_list [OF src cs])
  qed
  have m1: "map (\<lambda>k. [Write (chunk_filename (0 + k)) (json_dumps (take j cs ! k)),
                 Print (created_line (0 + k) (take j cs ! k))]) [0..<j]
      = map (\<lambda>k. [Write (chunk_filename k) (json_dumps (cs ! k)), Print (created_line k (cs ! k))]) [0..<j]"
    by (rule map_cong) simp_all
  have m2: "map (\<lambda>k. created_line (0 + k) (take j cs ! k) @ [CHR 0x0A]) [0..<j]
      = map (\<lambda>k. created_line k (cs ! k) @ [CHR 0x0A]) [0..<j]"
    by (rule map_cong) simp_all
  have a: "trace w' = trace w @ Print (total_line (length ds))
           # concat (map (\<lambda>k. [Write (chunk_filename k) (json_dumps (cs ! k)),
                                Print (created_line k (cs ! k))]) [0..<j])"
    using tr unfolding len m1 by (simp add: py_print_def)
  have b: "stdout w' = stdout w @ total_line (length ds) @ [CHR 0x0A]
           @ concat (map (\<lambda>k. created_line k (cs ! k) @ [CHR 0x0A]) [0..<j])"
    using st unfolding len m2 by (simp add: py_print_def)
  have d: "\<forall>k < j. files w' (chunk_filename k) = Some (Regular (json_dumps (cs ! k)))"
    using f1 len by simp
  have e: "\<forall>p. (\<forall>k < j. p \<noteq> chunk_filename k) \<longrightarrow> files w' p = files w p"
    using f2 len by (simp add: py_print_def)
  from so have so': "source w' = source w" by (simp add: py_print_def)
  from out so' a b d e show ?thesis by blast
qed

lemma first_directory:
  "\<exists>j \<le> n. (\<forall>k < j. f (chunk_filename k) \<noteq> Some Directory)
        \<and> (j < n \<longrightarrow> f (chunk_filename j) = Some Directory)"
proof (cases "\<exists>j < n. f (chunk_filename j) = Some Directory")
  case True
  define j where "j = (LEAST j. j < n \<and> f (chunk_filename j) = Some Directory)"
  from True have p: "j < n \<and> f (chunk_filename j) = Some Directory"
    unfolding j_def by (rule LeastI_ex)
  have "f (chunk_filename k) \<noteq> Some Directory" if "k < j" for k
  proof
    assume "f (chunk_filename k) = Some Directory"
    with that p have "k < n \<and> f (chunk_filename k) = Some Directory" by simp
    then have "j \<le> k" unfolding j_def by (rule Least_le)
    with that show False by simp
  qed
  with p show ?thesis by (intro exI [of _ j]) simp
next
  case False
  then show ?thesis by (intro exI [of _ n]) auto
qed








lemma split_twice_positive:
  assumes "source w = Inr (JArr ds)" and "0 < chunk_size"
  shows "let w1 = world_of (split_with chunk_size w);
             w2 = world_of (split_with chunk_size w1)
         in files w2 = files w1
          \<and> source w2 = source w \<and> source w1 = source w
          \<and> drop (length (trace w1)) (trace w2) = drop (length (trace w)) (trace w1)
          \<and> drop (length (stdout w1)) (stdout w2) = drop (length (stdout w)) (stdout w1)"
proof -
  from chunks_JArr [OF assms(2), of ds] obtain cs where cs: "chunks (JArr ds) chunk_size = Inr cs"
    by blast
  from first_directory [of "length cs" "files w"] obtain j where
    j: "j \<le> length cs" and ok: "\<forall>k < j. files w (chunk_filename k) \<noteq> Some Directory"
    and bad: "j < length cs \<longrightarrow> files w (chunk_filename j) = Some Directory"
    by blast
  let ?T = "Print (total_line (length ds))
           # concat (map (\<lambda>k. [Write (chunk_filename k) (json_dumps (cs ! k)),
                                Print (created_line k (cs ! k))]) [0..<j])"
  let ?S = "total_line (length ds) @ [CHR 0x0A]
           @ concat (map (\<lambda>k. created_line k (cs ! k) @ [CHR 0x0A]) [0..<j])"
  from split_with_run [OF assms(1) cs j ok bad] obtain w1 where
    r1: "if j = length cs then split_with chunk_size w = Completed w1
         else split_with chunk_size w = Aborted (IsADirectoryError (chunk_filename j)) w1"
    and s1: "source w1 = source w"
    and t1: "trace w1 = trace w @ ?T"
    and o1: "stdout w1 = stdout w @ ?S"
    and f1: "\<forall>k < j. files w1 (chunk_filename k) = Some (Regular (json_dumps (cs ! k)))"
    and g1: "\<forall>p. (\<forall>k < j. p \<noteq> chunk_filename k) \<longrightarrow> files w1 p = files w p"
    by blast
  from r1 have w1: "world_of (split_with chunk_size w) = w1" by (simp split: if_splits)
  have src1: "source w1 = Inr (JArr ds)" using s1 assms(1) by simp
  have ok1: "\<forall>k < j. files w1 (chunk_filename k) \<noteq> Some Directory" using f1 by simp
  have bad1: "j < length cs \<longrightarrow> files w1 (chunk_filename j) = Some Directory"
  proof
    assume "j < length cs"
    with bad have "files w (chunk_filename j) = Some Directory" by simp
    moreover have "\<forall>k < j. chunk_filename j \<noteq> chunk_filename k" by (simp add: chunk_filename_inj)
    with g1 have "files w1 (chunk_filename j) = files w (chunk_filename j)" by blast
    ultimately show "files w1 (chunk_filename j) = Some Directory" by simp
  qed
  from split_with_run [OF src1 cs j ok1 bad1] obtain w2 where
    r2: "if j = length cs then split_with chunk_size w1 = Completed w2
         else split_with chunk_size w1 = Aborted (IsADirectoryError (chunk_filename j)) w2"
    and s2: "source w2 = source w1"
    and t2: "trace w2 = trace w1 @ ?T"
    and o2: "stdout w2 = stdout w1 @ ?S"
    and f2: "\<forall>k < j. files w2 (chunk_filename k) = Some (Regular (json_dumps (cs ! k)))"
    and g2: "\<forall>p. (\<forall>k < j. p \<noteq> chunk_filename k) \<longrightarrow> files w2 p = files w1 p"
    by blast
  from r2 have w2: "world_of (split_with chunk_size w1) = w2" by (simp split: if_splits)
  have "files w2 p = files w1 p" for p
  proof (cases "\<exists>k < j. p = chunk_filename k")
    case True
    then obtain k where "k < j" "p = chunk_filename k" by blast
    with f1 f2 show ?thesis by simp
  next
    case False
    with g2 show ?thesis by blast
  qed
  then have "files w2 = files w1" by (rule ext)
  moreover have "drop (length (trace w1)) (trace w2) = drop (length (trace w)) (trace w1)"
    by (simp add: t2) (simp add: t1)
  moreover have "drop (length (stdout w1)) (stdout w2) = drop (length (stdout w)) (stdout w1)"
    by (simp add: o2) (simp add: o1)
  ultimately show ?thesis
    using s1 s2 by (simp add: w1 w2 Let_def)
qed

text \<open>
  C7. For a list as the source and any chunk size, a second run of the splitter in the
  world the first run left has the same effects as the first (the same files written with
  the same text, the same lines printed) and leaves the files exactly as the first run
  left them; the source is not touched by either run. This holds whether or not the runs
  end normally.
\<close>

theorem split_twice:
  assumes "source w = Inr (JArr ds)"
  shows "let w1 = world_of (split_with chunk_size w);
             w2 = world_of (split_with chunk_size w1)
         in files w2 = files w1
          \<and> source w2 = source w \<and> source w1 = source w
          \<and> drop (length (trace w1)) (trace w2) = drop (length (trace w)) (trace w1)
          \<and> drop (length (stdout w1)) (stdout w2) = drop (length (stdout w)) (stdout w1)"
proof (cases "chunk_size = 0")
  case True
  have run: "split_with 0 v
      = Aborted (ValueError ''range() arg 3 must not be zero'') (py_print (total_line (length ds)) v)"
    if "source v = Inr (JArr ds)" for v
    using that by (simp add: split_with_def chunks_def total_line_def)
  have "source (py_print (total_line (length ds)) w) = Inr (JArr ds)"
    using assms by (simp add: py_print_def)
  from run [OF assms] run [OF this] show ?thesis
    unfolding True by (simp add: py_print_def)
next
  case False
  then have "0 < chunk_size" by simp
  with assms show ?thesis by (rule split_twice_positive)
qed

theorem split_twice_witness:
  "let w1 = world_of (split_with 50 blocked_world);
       w2 = world_of (split_with 50 w1)
   in files w2 = files w1
    \<and> source w2 = source blocked_world \<and> source w1 = source blocked_world
    \<and> drop (length (trace w1)) (trace w2) = drop (length (trace blocked_world)) (trace w1)
    \<and> drop (length (stdout w1)) (stdout w2) = drop (length (stdout blocked_world)) (stdout w1)"
proof -
  have s: "source blocked_world = Inr (JArr (replicate 120 JNull))"
    by (simp add: blocked_world_def)
  show ?thesis by (rule split_twice [OF s])
qed

end
